theory Spec2Isabelle
  imports Complex_Main
begin

section \<open>JavaScript values, arrays and the store\<close>

text \<open>
  The values that can sit in a cell or come out of an array read: an integer number,
  \<open>NaN\<close>, or \<open>undefined\<close> (what an out-of-range read and a hole give).
  An array holds fewer than \<open>2^32\<close> elements: \<open>Array(n)\<close> refuses any other length.
  Memory is taken to suffice for every array within that limit. The contents of an array
  are a list, and the results below are stated for widths and arrays within the limit.
\<close>

datatype jsval = Num int | NaN | Undefined

datatype error = InvalidRuleNumber | InvalidWidth | RangeError

type_synonym jsarray = "jsval list"

text \<open>\<open>xs[i]\<close> for an integer \<open>i\<close>: out of range reads give \<open>undefined\<close>.\<close>

definition js_get :: "jsarray \<Rightarrow> int \<Rightarrow> jsval" where
  "js_get xs i = (if 0 \<le> i \<and> i < int (length xs) then xs ! nat i else Undefined)"

text \<open>\<open>xs[k]\<close> for a computed key \<open>k\<close>: a key that is not an index names no element.\<close>

definition js_index :: "jsarray \<Rightarrow> jsval \<Rightarrow> jsval" where
  "js_index xs k = (case k of Num i \<Rightarrow> js_get xs i | NaN \<Rightarrow> Undefined | Undefined \<Rightarrow> Undefined)"

text \<open>\<open>xs[i] = v\<close>: a write past the end extends the array, leaving holes. (The
  program writes only at indices below the length \<open>Array\<close> accepted, and at index 0 of
  an empty array.)\<close>

definition js_set :: "jsarray \<Rightarrow> nat \<Rightarrow> jsval \<Rightarrow> jsarray" where
  "js_set xs i v =
     (if i < length xs then xs[i := v] else xs @ replicate (i - length xs) Undefined @ [v])"

text \<open>\<open>Array(n).fill(v)\<close>: \<open>Array(n)\<close> throws a RangeError unless \<open>n\<close> is an
  integer from 0 to \<open>2^32 - 1\<close>.\<close>

definition Array_fill :: "rat \<Rightarrow> jsval \<Rightarrow> error + jsarray" where
  "Array_fill n v =
     (if 0 \<le> n \<and> n < 2 ^ 32 \<and> of_int \<lfloor>n\<rfloor> = n
      then Inr (replicate (nat \<lfloor>n\<rfloor>) v)
      else Inl RangeError)"

text \<open>\<open>a - b\<close> and \<open>a % b\<close> on numbers; \<open>%\<close> takes the sign of the dividend.\<close>

definition js_minus :: "int \<Rightarrow> jsval \<Rightarrow> jsval" where
  "js_minus a k = (case k of Num b \<Rightarrow> Num (a - b) | NaN \<Rightarrow> NaN | Undefined \<Rightarrow> NaN)"

definition js_rem :: "int \<Rightarrow> int \<Rightarrow> int" where
  "js_rem a b = sgn a * (\<bar>a\<bar> mod \<bar>b\<bar>)"

text \<open>
  Arrays are objects: a variable or a field holds a reference. The store is the list of
  all arrays allocated so far, and a reference is a position in it.
\<close>

type_synonym addr = nat
type_synonym heap = "jsarray list"

definition alloc :: "heap \<Rightarrow> jsarray \<Rightarrow> heap \<times> addr" where
  "alloc h xs = (h @ [xs], length h)"

definition heap_set :: "heap \<Rightarrow> addr \<Rightarrow> nat \<Rightarrow> jsval \<Rightarrow> heap" where
  "heap_set h r i v = h[r := js_set (h ! r) i v]"

section \<open>Strings\<close>

definition digit_char :: "nat \<Rightarrow> char" where
  "digit_char d = ''0123456789'' ! d"

function digits :: "nat \<Rightarrow> nat \<Rightarrow> string" where
  "digits b n =
     (if n < b \<or> b < 2 then [digit_char n] else digits b (n div b) @ [digit_char (n mod b)])"
  by pat_completeness auto
termination
  by (relation "measure (\<lambda>(b, n). n)") auto

declare digits.simps [simp del]

text \<open>\<open>k.toString(radix)\<close> for an integer \<open>k\<close> and a radix from 2 to 10.\<close>

definition toString :: "nat \<Rightarrow> int \<Rightarrow> string" where
  "toString radix k =
     (if k < 0 then CHR ''-'' # digits radix (nat (- k)) else digits radix (nat k))"

definition padStart :: "nat \<Rightarrow> char \<Rightarrow> string \<Rightarrow> string" where
  "padStart n c s = replicate (n - length s) c @ s"

text \<open>\<open>Number(c)\<close> on a one-character string, as \<open>map(Number)\<close> applies it after
  \<open>split('')\<close>: a decimal digit is its value, the sign character is \<open>NaN\<close>.\<close>

definition digit_val :: "char \<Rightarrow> int option" where
  "digit_val c = map_of (zip ''0123456789'' [0, 1, 2, 3, 4, 5, 6, 7, 8, 9]) c"

definition Number_char :: "char \<Rightarrow> jsval" where
  "Number_char c = (case digit_val c of Some d \<Rightarrow> Num d | None \<Rightarrow> NaN)"

text \<open>A value inside a template literal. A number is printed with all its decimal digits,
  as JavaScript prints the integers below \<open>10^21\<close>; the exponent form of larger numbers
  is not modelled (the cells of a binary generation are 0 and 1).\<close>

fun template :: "jsval \<Rightarrow> string" where
  "template (Num k) = toString 10 k"
| "template NaN = ''NaN''"
| "template Undefined = ''undefined''"

text \<open>
  \<open>parseInt(s, radix)\<close> for a radix from 2 to 10: an optional sign, then the longest run
  of digits below the radix; \<open>NaN\<close> when that run is empty. (The strings parsed here are
  built from template literals of numbers and contain no white space.)
\<close>

definition is_digit :: "nat \<Rightarrow> char \<Rightarrow> bool" where
  "is_digit radix c = (case digit_val c of Some d \<Rightarrow> d < int radix | None \<Rightarrow> False)"

definition digits_value :: "nat \<Rightarrow> string \<Rightarrow> int" where
  "digits_value radix ds = foldl (\<lambda>acc c. acc * int radix + the (digit_val c)) 0 ds"

definition parseInt :: "string \<Rightarrow> nat \<Rightarrow> jsval" where
  "parseInt s radix =
     (let neg = (s \<noteq> [] \<and> hd s = CHR ''-'');
          t = (if s \<noteq> [] \<and> (hd s = CHR ''-'' \<or> hd s = CHR ''+'') then tl s else s);
          ds = takeWhile (is_digit radix) t
      in if ds = [] then NaN
         else Num ((if neg then - 1 else 1) * digits_value radix ds))"

section \<open>The automaton\<close>

record automaton =
  rule :: jsarray
  width :: rat
  generation :: addr

text \<open>\<open>_getRuleArray\<close>: the binary digits of the rule number, padded to eight, reversed.\<close>

definition getRuleArray :: "int \<Rightarrow> jsarray" where
  "getRuleArray ruleNumber = rev (map Number_char (padStart 8 CHR ''0'' (toString 2 ruleNumber)))"

text \<open>\<open>_createInitialGeneration\<close>.\<close>

definition createInitialGeneration :: "rat \<Rightarrow> error + jsarray" where
  "createInitialGeneration w =
     (case Array_fill w (Num 0) of
        Inl e \<Rightarrow> Inl e
      | Inr gen \<Rightarrow> Inr (js_set gen (nat \<lfloor>w / 2\<rfloor>) (Num 1)))"

text \<open>
  The adjustment of the constructor, on the copy of the initial generation:
  centring in zeros when too short, \<open>slice(0, width)\<close> when too long. The warning
  written to the console on a mismatch is output only and is left out.
\<close>

definition adjust :: "rat \<Rightarrow> jsarray \<Rightarrow> error + jsarray" where
  "adjust w gen =
     (if rat_of_nat (length gen) \<noteq> w then
        (if rat_of_nat (length gen) < w then
           (let diff = w - rat_of_nat (length gen) in
            case Array_fill (rat_of_int \<lfloor>diff / 2\<rfloor>) (Num 0) of
              Inl e \<Rightarrow> Inl e
            | Inr padding \<Rightarrow>
                (case Array_fill (diff - rat_of_nat (length padding)) (Num 0) of
                   Inl e \<Rightarrow> Inl e
                 | Inr suffix \<Rightarrow> Inr (padding @ gen @ suffix)))
         else Inr (take (nat \<lfloor>w\<rfloor>) gen))
      else Inr gen)"

text \<open>
  The constructor. The rule number is an integer, as the source documents it; the width is
  any number. \<open>initialGeneration\<close> is \<open>None\<close> for \<open>null\<close> (or omitted), else the
  contents of the caller's array, which the constructor copies.
  A thrown error leaves no instance: the result is the error alone.
\<close>

definition constructor :: "heap \<Rightarrow> int \<Rightarrow> rat \<Rightarrow> jsarray option \<Rightarrow> error + heap \<times> automaton" where
  "constructor h ruleNumber w initialGeneration =
     (if ruleNumber < 0 \<or> ruleNumber > 255 then Inl InvalidRuleNumber
      else if w \<le> 0 then Inl InvalidWidth
      else
        (case (case initialGeneration of
                 Some xs \<Rightarrow> Inr xs
               | None \<Rightarrow> createInitialGeneration w) of
           Inl e \<Rightarrow> Inl e
         | Inr gen \<Rightarrow>
             (case adjust w gen of
                Inl e \<Rightarrow> Inl e
              | Inr gen' \<Rightarrow>
                  (let (h', g) = alloc h gen'
                   in Inr (h', \<lparr>rule = getRuleArray ruleNumber, width = w, generation = g\<rparr>)))))"

text \<open>
  The body of the loop of \<open>nextGeneration\<close> for cell \<open>i\<close> of a ring of \<open>n\<close> cells:
  the three indices read, the neighbourhood index parsed from the template string, and the
  entry of the rule array selected.
\<close>

definition left_index :: "nat \<Rightarrow> nat \<Rightarrow> int" where
  "left_index n i = js_rem (int i - 1 + int n) (int n)"

definition right_index :: "nat \<Rightarrow> nat \<Rightarrow> int" where
  "right_index n i = js_rem (int i + 1) (int n)"

definition neighborhoodIndex :: "jsarray \<Rightarrow> nat \<Rightarrow> nat \<Rightarrow> jsval" where
  "neighborhoodIndex gen n i =
     (let left = js_get gen (left_index n i);
          middle = js_get gen (int i);
          right = js_get gen (right_index n i)
      in parseInt (template left @ template middle @ template right) 2)"

definition next_cell :: "jsarray \<Rightarrow> jsarray \<Rightarrow> nat \<Rightarrow> nat \<Rightarrow> jsval" where
  "next_cell rl gen n i = js_index rl (js_minus 7 (neighborhoodIndex gen n i))"

text \<open>
  The loop itself, on the store: it reads the array \<open>this.generation\<close> refers to (\<open>g\<close>)
  and writes the array \<open>nextGen\<close> refers to. It is entered only after
  \<open>Array(this.width)\<close> has succeeded, so \<open>this.width\<close> is a natural number \<open>n\<close> there.
\<close>

function nextGeneration_loop :: "jsarray \<Rightarrow> addr \<Rightarrow> addr \<Rightarrow> nat \<Rightarrow> nat \<Rightarrow> heap \<Rightarrow> heap" where
  "nextGeneration_loop rl g nextGen n i h =
     (if i < n
      then nextGeneration_loop rl g nextGen n (i + 1)
             (heap_set h nextGen i (next_cell rl (h ! g) n i))
      else h)"
  by pat_completeness auto
termination
  by (relation "measure (\<lambda>(rl, g, nextGen, n, i, h). n - i)") auto

declare nextGeneration_loop.simps [simp del]

text \<open>\<open>nextGeneration\<close>: returns the new store, the updated instance and the reference
  returned to the caller.\<close>

definition nextGeneration :: "heap \<Rightarrow> automaton \<Rightarrow> error + heap \<times> automaton \<times> addr" where
  "nextGeneration h a =
     (case Array_fill (width a) (Num 0) of
        Inl e \<Rightarrow> Inl e
      | Inr zeros \<Rightarrow>
          (let (h1, nextGen) = alloc h zeros;
               h2 = nextGeneration_loop (rule a) (generation a) nextGen (length zeros) 0 h1;
               a' = a\<lparr>generation := nextGen\<rparr>
           in Inr (h2, a', generation a')))"

text \<open>\<open>getCurrentGeneration\<close>: a fresh array with the same contents; the instance is not
  written.\<close>

definition getCurrentGeneration :: "heap \<Rightarrow> automaton \<Rightarrow> heap \<times> addr" where
  "getCurrentGeneration h a = alloc h (h ! generation a)"


section \<open>Well-formed instances\<close>

text \<open>A sequence of cells, or a rule table, is binary when every entry is the number 0 or
  the number 1; \<open>num_of\<close> reads the number in such an entry.\<close>

definition binary :: "jsarray \<Rightarrow> bool" where
  "binary xs = list_all (\<lambda>v. v = Num 0 \<or> v = Num 1) xs"

fun num_of :: "jsval \<Rightarrow> int" where
  "num_of (Num k) = k"
| "num_of NaN = 0"
| "num_of Undefined = 0"

text \<open>
  The instance invariant of the data model, for an instance of width \<open>n\<close> in a store:
  the width is the positive integer \<open>n\<close>, the current generation is an allocated array
  of \<open>n\<close> binary cells (so \<open>n\<close> is the length of an array, below \<open>2^32\<close>), and
  the rule table has eight binary entries.
\<close>

definition valid_instance :: "heap \<Rightarrow> automaton \<Rightarrow> nat \<Rightarrow> bool" where
  "valid_instance h a n =
     (0 < n \<and> n < 2 ^ 32 \<and> width a = rat_of_nat n \<and> generation a < length h \<and>
      length (h ! generation a) = n \<and> binary (h ! generation a) \<and>
      length (rule a) = 8 \<and> binary (rule a))"

text \<open>What a caller sees of one step: the contents of the array that \<open>nextGeneration\<close>
  returns, or the error it throws.\<close>

definition next_contents :: "heap \<Rightarrow> automaton \<Rightarrow> error + jsarray" where
  "next_contents h a =
     (case nextGeneration h a of Inl e \<Rightarrow> Inl e | Inr (h', a', r) \<Rightarrow> Inr (h' ! r))"

text \<open>
  The initial generation as the specification words it, for a supplied sequence \<open>xs\<close> and
  a width \<open>n\<close>: centred in zeros when shorter (\<open>floor(diff/2)\<close> zeros before, the rest
  after), cut to the first \<open>n\<close> values when longer, unchanged when the lengths agree.
  It is compared below with what the constructor stores.
\<close>

definition spec_adjusted :: "nat \<Rightarrow> jsarray \<Rightarrow> jsarray" where
  "spec_adjusted n xs =
     (if length xs < n then
        (let diff = n - length xs
         in replicate (diff div 2) (Num 0) @ xs @ replicate (diff - diff div 2) (Num 0))
      else if n < length xs then take n xs
      else xs)"

section \<open>Facts about arrays, indices and strings\<close>

lemma js_get_nat: "k < length xs \<Longrightarrow> js_get xs (int k) = xs ! k"
  by (simp add: js_get_def)

lemma js_rem_nonneg: "0 \<le> a \<Longrightarrow> 0 < b \<Longrightarrow> js_rem a b = a mod b"
  by (simp add: js_rem_def sgn_if)

lemma left_index_nat: "0 < n \<Longrightarrow> left_index n i = int ((i + n - 1) mod n)"
  by (simp add: left_index_def js_rem_nonneg zmod_int of_nat_diff algebra_simps)

lemma right_index_nat: "0 < n \<Longrightarrow> right_index n i = int ((i + 1) mod n)"
  by (simp add: right_index_def js_rem_nonneg zmod_int add.commute)

lemma Array_fill_nat: "n < 2 ^ 32 \<Longrightarrow> Array_fill (rat_of_nat n) v = Inr (replicate n v)"
  by (simp add: Array_fill_def)

lemma heap_set_in_range:
  "i < length (h ! r) \<Longrightarrow> heap_set h r i v = h[r := (h ! r)[i := v]]"
  by (simp add: heap_set_def js_set_def)

lemma digits_small: "n < b \<Longrightarrow> digits b n = [digit_char n]"
  by (subst digits.simps) simp

lemma digits2_step:
  "\<not> n < 2 \<Longrightarrow> digits 2 n = digits 2 (n div 2) @ [digit_char (n mod 2)]"
  by (subst digits.simps) simp

lemma toString_10_0: "toString 10 0 = ''0''"
  by (simp add: toString_def digits_small digit_char_def)

lemma toString_10_1: "toString 10 1 = ''1''"
  by (simp add: toString_def digits_small digit_char_def)

lemma digit_val_0: "digit_val CHR ''0'' = Some 0"
  by (simp add: digit_val_def)

lemma digit_val_1: "digit_val CHR ''1'' = Some 1"
  by (simp add: digit_val_def)

lemma is_digit_2: "is_digit 2 CHR ''0''" "is_digit 2 CHR ''1''"
  by (simp_all add: is_digit_def digit_val_0 digit_val_1)

lemma Number_char_0: "Number_char CHR ''0'' = Num 0"
  by (simp add: Number_char_def digit_val_0)

lemma Number_char_bit: "Number_char (digit_char (of_bool b)) = Num (of_bool b)"
  by (cases b) (simp_all add: digit_char_def Number_char_def digit_val_0 digit_val_1)

subsection \<open>The binary digits of a number are its bits\<close>

lemma digits2_rev_nth:
  "j < length (digits 2 n) \<Longrightarrow> rev (digits 2 n) ! j = digit_char (of_bool (bit n j))"
proof (induction "2::nat" n arbitrary: j rule: digits.induct)
  case (1 n)
  show ?case
  proof (cases "n < 2")
    case True
    then have n: "n = 0 \<or> n = 1" by auto
    from True have d: "digits 2 n = [digit_char n]" by (rule digits_small)
    with 1(2) have "j = 0" by simp
    with n d show ?thesis by (auto simp: bit_0)
  next
    case False
    then have eq: "rev (digits 2 n) = digit_char (n mod 2) # rev (digits 2 (n div 2))"
      by (simp add: digits2_step)
    show ?thesis
    proof (cases j)
      case 0
      then show ?thesis using eq by (simp add: bit_0 mod_2_eq_odd)
    next
      case (Suc j')
      with 1(2) eq have "j' < length (digits 2 (n div 2))"
        by (metis Suc_less_eq length_Cons length_rev)
      with 1(1) False
      have "rev (digits 2 (n div 2)) ! j' = digit_char (of_bool (bit (n div 2) j'))"
        by simp
      then show ?thesis using Suc eq by (simp add: bit_Suc)
    qed
  qed
qed

lemma digits2_bound: "n < 2 ^ length (digits 2 n)"
proof (induction "2::nat" n rule: digits.induct)
  case (1 n)
  show ?case
  proof (cases "n < 2")
    case True
    then show ?thesis by (simp add: digits_small)
  next
    case False
    with 1 have ih: "n div 2 < 2 ^ length (digits 2 (n div 2))" by simp
    have "length (digits 2 n) = Suc (length (digits 2 (n div 2)))"
      using False by (simp add: digits2_step)
    with ih show ?thesis by auto
  qed
qed

lemma digits2_length: "0 < k \<Longrightarrow> n < 2 ^ k \<Longrightarrow> length (digits 2 n) \<le> k"
proof (induction "2::nat" n arbitrary: k rule: digits.induct)
  case (1 n)
  show ?case
  proof (cases "n < 2")
    case True
    then show ?thesis using 1(2) by (simp add: digits_small)
  next
    case False
    obtain k' where k: "k = Suc k'" using 1(2) by (cases k) auto
    from False 1(3) k have "0 < k'" by (cases k') auto
    moreover from 1(3) k have "n div 2 < 2 ^ k'" by auto
    ultimately have "length (digits 2 (n div 2)) \<le> k'" using 1(1) False by simp
    moreover have "length (digits 2 n) = Suc (length (digits 2 (n div 2)))"
      using False by (simp add: digits2_step)
    ultimately show ?thesis using k by simp
  qed
qed

lemma not_bit_of_less: "(n::nat) < 2 ^ p \<Longrightarrow> \<not> bit n p"
proof -
  assume "n < 2 ^ p"
  then have "n div 2 ^ p = 0" by simp
  then show ?thesis by (simp add: bit_iff_odd)
qed

subsection \<open>The rule array\<close>

lemma getRuleArray_int:
  "getRuleArray (int n) =
     map Number_char (rev (digits 2 n)) @ replicate (8 - length (digits 2 n)) (Num 0)"
  by (simp add: getRuleArray_def toString_def padStart_def rev_map Number_char_0)

lemma getRuleArray_nat_length: "n < 256 \<Longrightarrow> length (getRuleArray (int n)) = 8"
proof -
  assume "n < 256"
  then have "n < 2 ^ 8" by simp
  then have "length (digits 2 n) \<le> 8" by (intro digits2_length) simp_all
  then show ?thesis by (simp add: getRuleArray_int)
qed

lemma getRuleArray_nat_nth:
  assumes "n < 256" "p < 8"
  shows "getRuleArray (int n) ! p = Num (of_bool (bit n p))"
proof -
  have "n < 2 ^ 8" using assms by simp
  then have len: "length (digits 2 n) \<le> 8" by (intro digits2_length) simp_all
  show ?thesis
  proof (cases "p < length (digits 2 n)")
    case True
    then show ?thesis
      by (simp add: getRuleArray_int nth_append digits2_rev_nth Number_char_bit)
  next
    case False
    have "n < 2 ^ length (digits 2 n)" by (rule digits2_bound)
    also have "\<dots> \<le> 2 ^ p" using False by (intro power_increasing) simp_all
    finally have "\<not> bit n p" by (rule not_bit_of_less)
    then show ?thesis using False assms(2) len
      by (simp add: getRuleArray_int nth_append)
  qed
qed

lemma getRuleArray_length: "0 \<le> r \<Longrightarrow> r \<le> 255 \<Longrightarrow> length (getRuleArray r) = 8"
  using getRuleArray_nat_length [of "nat r"] by simp

lemma getRuleArray_nth:
  "0 \<le> r \<Longrightarrow> r \<le> 255 \<Longrightarrow> p < 8 \<Longrightarrow> getRuleArray r ! p = Num (of_bool (bit r p))"
  using getRuleArray_nat_nth [of "nat r" p] by (simp add: bit_nat_iff)


lemma getRuleArray_90:
  "getRuleArray 90 = [Num 0, Num 1, Num 0, Num 1, Num 1, Num 0, Num 1, Num 0]"
  by code_simp

lemma getRuleArray_30:
  "getRuleArray 30 = [Num 0, Num 1, Num 1, Num 1, Num 1, Num 0, Num 0, Num 0]"
  by code_simp

subsection \<open>One cell of the next generation\<close>

lemma binary_nth: "binary xs \<Longrightarrow> k < length xs \<Longrightarrow> xs ! k = Num 0 \<or> xs ! k = Num 1"
  by (simp add: binary_def list_all_length)

lemma num_of_binary_bounds:
  "binary xs \<Longrightarrow> k < length xs \<Longrightarrow> 0 \<le> num_of (xs ! k) \<and> num_of (xs ! k) \<le> 1"
  using binary_nth [of xs k] by auto

lemma parseInt_binary:
  assumes "a = Num 0 \<or> a = Num 1" "b = Num 0 \<or> b = Num 1" "c = Num 0 \<or> c = Num 1"
  shows "parseInt (template a @ template b @ template c) 2 =
           Num (num_of a * 4 + num_of b * 2 + num_of c)"
  using assms
  by (elim disjE)
     (simp_all add: toString_10_0 toString_10_1 parseInt_def is_digit_2 digits_value_def
        digit_val_0 digit_val_1)

lemma neighborhoodIndex_binary:
  assumes "length gen = n" "binary gen" "i < n"
  shows "neighborhoodIndex gen n i =
           Num (num_of (gen ! ((i + n - 1) mod n)) * 4 + num_of (gen ! i) * 2 +
                num_of (gen ! ((i + 1) mod n)))"
proof -
  have n: "0 < n" using assms(3) by simp
  have l: "(i + n - 1) mod n < length gen" and r: "(i + 1) mod n < length gen"
    using n assms(1) by simp_all
  show ?thesis
    unfolding neighborhoodIndex_def Let_def left_index_nat [OF n] right_index_nat [OF n]
    using assms l r
    by (simp only: js_get_nat) (intro parseInt_binary binary_nth; simp)
qed

lemma next_cell_binary:
  assumes "length gen = n" "binary gen" "i < n" "length rl = 8"
  shows "next_cell rl gen n i =
           rl ! nat (7 - (num_of (gen ! ((i + n - 1) mod n)) * 4 + num_of (gen ! i) * 2 +
                          num_of (gen ! ((i + 1) mod n))))"
proof -
  have n: "0 < n" using assms(3) by simp
  have "(i + n - 1) mod n < length gen" "i < length gen" "(i + 1) mod n < length gen"
    using n assms(1,3) by simp_all
  then have "0 \<le> num_of (gen ! ((i + n - 1) mod n)) \<and> num_of (gen ! ((i + n - 1) mod n)) \<le> 1"
    "0 \<le> num_of (gen ! i) \<and> num_of (gen ! i) \<le> 1"
    "0 \<le> num_of (gen ! ((i + 1) mod n)) \<and> num_of (gen ! ((i + 1) mod n)) \<le> 1"
    by (simp_all add: num_of_binary_bounds [OF assms(2)])
  then show ?thesis
    using assms(4)
    by (simp add: next_cell_def neighborhoodIndex_binary [OF assms(1-3)] js_minus_def
        js_index_def js_get_def)
qed

subsection \<open>The loop and the step\<close>

lemma nextGeneration_loop_result:
  assumes "g \<noteq> ng" "ng < length h" "length (h ! ng) = n" "i \<le> n"
  shows "nextGeneration_loop rl g ng n i h =
           h[ng := take i (h ! ng) @ map (next_cell rl (h ! g) n) [i..<n]]"
  using assms
proof (induction "n - i" arbitrary: i h)
  case 0
  then have "i = n" by simp
  with 0 show ?case
    by (subst nextGeneration_loop.simps) (simp add: list_update_same_conv)
next
  case (Suc d)
  then have lt: "i < n" by simp
  let ?v = "next_cell rl (h ! g) n i"
  let ?h = "h[ng := (h ! ng)[i := ?v]]"
  have step: "nextGeneration_loop rl g ng n i h = nextGeneration_loop rl g ng n (i + 1) ?h"
    using lt Suc.prems by (subst nextGeneration_loop.simps) (simp add: heap_set_in_range)
  have g: "?h ! g = h ! g" using Suc.prems(1) by simp
  have ng: "?h ! ng = (h ! ng)[i := ?v]" using Suc.prems(2) by simp
  have "d = n - (i + 1)" using Suc.hyps(2) by simp
  then have "nextGeneration_loop rl g ng n (i + 1) ?h =
      ?h[ng := take (i + 1) (?h ! ng) @ map (next_cell rl (?h ! g) n) [i + 1..<n]]"
    using Suc.prems lt by (intro Suc.hyps(1)) simp_all
  also have "\<dots> = h[ng := take i (h ! ng) @ map (next_cell rl (h ! g) n) [i..<n]]"
    using lt Suc.prems(3)
    by (simp add: g ng take_Suc_conv_app_nth upt_conv_Cons)
  finally show ?case using step by simp
qed

lemma nextGeneration_result:
  assumes "generation a < length h" "width a = rat_of_nat n" "n < 2 ^ 32"
  shows "nextGeneration h a =
           Inr (h @ [map (next_cell (rule a) (h ! generation a) n) [0..<n]],
                a\<lparr>generation := length h\<rparr>, length h)"
proof -
  let ?h1 = "h @ [replicate n (Num 0)]"
  have "nextGeneration_loop (rule a) (generation a) (length h) n 0 ?h1 =
          ?h1[length h := take 0 (?h1 ! length h) @
                map (next_cell (rule a) (?h1 ! generation a) n) [0..<n]]"
    using assms(1) by (intro nextGeneration_loop_result) simp_all
  then show ?thesis
    using assms by (simp add: nextGeneration_def Array_fill_nat alloc_def nth_append)
qed

lemma upt_7: "[0..<7] = [0, 1, 2, 3, 4, 5, 6]"
  by (simp add: upt_conv_Cons eval_nat_numeral)

lemma upt_5: "[0..<5] = [0, 1, 2, 3, 4]"
  by (simp add: upt_conv_Cons eval_nat_numeral)

subsection \<open>The constructor on a valid rule number and width\<close>

lemma Array_fill_eq_nat:
  "q = rat_of_nat n \<Longrightarrow> n < 2 ^ 32 \<Longrightarrow> Array_fill q v = Inr (replicate n v)"
  by (simp add: Array_fill_def)

lemma adjust_nat:
  assumes "w = rat_of_nat n" "n < 2 ^ 32"
  shows "adjust w xs = Inr (spec_adjusted n xs)"
proof (cases "length xs < n")
  case True
  define d where "d = n - length xs"
  have diff: "w - rat_of_nat (length xs) = rat_of_nat d"
    using True by (simp add: assms(1) d_def of_nat_diff)
  have fl: "\<lfloor>rat_of_nat d / 2\<rfloor> = int (d div 2)"
    using floor_divide_of_nat_eq [of d 2, where ?'a = rat] by simp
  have d: "d div 2 < 2 ^ 32" "d - d div 2 < 2 ^ 32"
    using assms(2) by (simp_all add: d_def)
  have pad: "Array_fill (rat_of_int \<lfloor>rat_of_nat d / 2\<rfloor>) (Num 0) = Inr (replicate (d div 2) (Num 0))"
    by (rule Array_fill_eq_nat [OF _ d(1)]) (simp add: fl)
  have suf: "Array_fill (rat_of_nat d - rat_of_nat (d div 2)) (Num 0) =
               Inr (replicate (d - d div 2) (Num 0))"
    by (rule Array_fill_eq_nat [OF _ d(2)]) (simp add: of_nat_diff)
  have ne: "rat_of_nat (length xs) \<noteq> w" "rat_of_nat (length xs) < w"
    using True by (simp_all add: assms(1))
  show ?thesis
    using True
    by (simp add: adjust_def ne diff pad suf spec_adjusted_def Let_def d_def [symmetric])
next
  case False
  then show ?thesis
    by (auto simp: adjust_def assms(1) spec_adjusted_def)
qed

lemma createInitialGeneration_nat:
  assumes "0 < n" "w = rat_of_nat n" "n < 2 ^ 32"
  shows "createInitialGeneration w = Inr ((replicate n (Num 0))[n div 2 := Num 1])"
proof -
  have "\<lfloor>rat_of_nat n / 2\<rfloor> = int (n div 2)"
    using floor_divide_of_nat_eq [of n 2, where ?'a = rat] by simp
  then show ?thesis
    using assms by (simp add: createInitialGeneration_def Array_fill_nat js_set_def)
qed

lemma constructor_Some:
  assumes "0 \<le> r" "r \<le> 255" "0 < n" "w = rat_of_nat n" "n < 2 ^ 32"
  shows "constructor h r w (Some xs) =
           Inr (h @ [spec_adjusted n xs],
                \<lparr>rule = getRuleArray r, width = w, generation = length h\<rparr>)"
  using assms(1-3) unfolding assms(4)
  by (simp add: constructor_def adjust_nat [OF refl assms(5)] alloc_def)

lemma constructor_None:
  assumes "0 \<le> r" "r \<le> 255" "0 < n" "w = rat_of_nat n" "n < 2 ^ 32"
  shows "constructor h r w None =
           Inr (h @ [(replicate n (Num 0))[n div 2 := Num 1]],
                \<lparr>rule = getRuleArray r, width = w, generation = length h\<rparr>)"
proof -
  have "spec_adjusted n ((replicate n (Num 0))[n div 2 := Num 1]) =
          (replicate n (Num 0))[n div 2 := Num 1]"
    by (simp add: spec_adjusted_def)
  then show ?thesis
    using assms(1-3) unfolding assms(4)
    by (simp add: constructor_def createInitialGeneration_nat [OF assms(3) refl assms(5)]
        adjust_nat [OF refl assms(5)] alloc_def)
qed

lemma seed_7:
  "(replicate 7 (Num 0))[3 := Num 1] = [Num 0, Num 0, Num 0, Num 1, Num 0, Num 0, Num 0]"
  by code_simp

lemma seed_5: "(replicate 5 (Num 0))[2 := Num 1] = [Num 0, Num 0, Num 1, Num 0, Num 0]"
  by code_simp

lemma spec_adjusted_example:
  "spec_adjusted 7 [Num 1, Num 1] = [Num 0, Num 0, Num 1, Num 1, Num 0, Num 0, Num 0]"
  by code_simp

lemma floor_5_halves: "\<lfloor>(5::rat) / 2\<rfloor> = 2"
  by (rule floor_unique) simp_all

text \<open>Which inputs each guard of the constructor rejects; nothing after the guards raises
  either of the two errors.\<close>

lemma constructor_InvalidRuleNumber_iff:
  "constructor h r w g = Inl InvalidRuleNumber \<longleftrightarrow> r < 0 \<or> 255 < r"
  by (auto simp: constructor_def adjust_def createInitialGeneration_def Array_fill_def alloc_def
        Let_def split: option.splits sum.splits if_splits)

lemma constructor_InvalidWidth_iff:
  "constructor h r w g = Inl InvalidWidth \<longleftrightarrow> 0 \<le> r \<and> r \<le> 255 \<and> w \<le> 0"
  by (auto simp: constructor_def adjust_def createInitialGeneration_def Array_fill_def alloc_def
        Let_def split: option.splits sum.splits if_splits)

subsection \<open>Indices with wrap-around\<close>

lemma left_index_mod: "0 < n \<Longrightarrow> left_index n i = (int i - 1 + int n) mod int n"
  by (simp add: left_index_def js_rem_nonneg)

lemma right_index_mod: "0 < n \<Longrightarrow> right_index n i = (int i + 1) mod int n"
  by (simp add: right_index_def js_rem_nonneg)

lemma left_index_first: "0 < n \<Longrightarrow> left_index n 0 = int n - 1"
  by (simp add: left_index_nat of_nat_diff)

lemma right_index_last: "0 < n \<Longrightarrow> right_index n (n - 1) = 0"
  by (simp add: right_index_nat)

lemma next_cell_unfold:
  assumes "i < n"
  shows "next_cell rl gen n i =
           js_index rl (js_minus 7 (parseInt
             (template (js_get gen ((int i - 1 + int n) mod int n)) @
              template (js_get gen (int i)) @
              template (js_get gen ((int i + 1) mod int n))) 2))"
proof -
  have "0 < n" using assms by simp
  then show ?thesis
    unfolding next_cell_def neighborhoodIndex_def Let_def
    by (simp only: left_index_mod right_index_mod)
qed

subsection \<open>Rule 90 on the seed of width 7\<close>

lemma rule90_seed7_step:
  assumes "rule a = getRuleArray 90" "width a = 7" "generation a < length h"
    and "h ! generation a = [Num 0, Num 0, Num 0, Num 1, Num 0, Num 0, Num 0]"
  shows "nextGeneration h a =
           Inr (h @ [[Num 0, Num 0, Num 1, Num 0, Num 1, Num 0, Num 0]],
                a\<lparr>generation := length h\<rparr>, length h)"
proof -
  have "width a = rat_of_nat 7" using assms(2) by simp
  from nextGeneration_result [OF assms(3) this] show ?thesis
    by (simp add: assms(1,4) getRuleArray_90 upt_7 next_cell_binary [where n = 7] binary_def)
qed

lemma constructor_90_7:
  "constructor [] 90 7 None =
     Inr ([[Num 0, Num 0, Num 0, Num 1, Num 0, Num 0, Num 0]],
          \<lparr>rule = getRuleArray 90, width = 7, generation = 0\<rparr>)"
  by (subst constructor_None [where n = 7]) (simp_all add: seed_7)

subsection \<open>Binary generations stay binary\<close>

lemma neighborhoodIndex_range:
  assumes "length gen = n" "binary gen" "i < n"
  shows "\<exists>v. neighborhoodIndex gen n i = Num v \<and> 0 \<le> v \<and> v \<le> 7"
proof -
  have n: "0 < n" using assms(3) by simp
  have "(i + n - 1) mod n < length gen" "i < length gen" "(i + 1) mod n < length gen"
    using n assms(1,3) by simp_all
  then have "0 \<le> num_of (gen ! ((i + n - 1) mod n)) \<and> num_of (gen ! ((i + n - 1) mod n)) \<le> 1"
    "0 \<le> num_of (gen ! i) \<and> num_of (gen ! i) \<le> 1"
    "0 \<le> num_of (gen ! ((i + 1) mod n)) \<and> num_of (gen ! ((i + 1) mod n)) \<le> 1"
    by (simp_all add: num_of_binary_bounds [OF assms(2)])
  then show ?thesis
    by (simp add: neighborhoodIndex_binary [OF assms])
qed

lemma next_cell_rule_entry:
  assumes "length gen = n" "binary gen" "i < n" "length rl = 8"
  shows "\<exists>v. neighborhoodIndex gen n i = Num v \<and> 0 \<le> v \<and> v \<le> 7 \<and>
             next_cell rl gen n i = rl ! nat (7 - v)"
proof -
  from neighborhoodIndex_range [OF assms(1-3)] obtain v where
    v: "neighborhoodIndex gen n i = Num v" "0 \<le> v" "v \<le> 7" by blast
  then have "next_cell rl gen n i = rl ! nat (7 - v)"
    using assms(4) by (simp add: next_cell_def js_minus_def js_index_def js_get_def)
  with v show ?thesis by blast
qed

text \<open>
  What the step computes from a rule number: the rule array holds bit \<open>p\<close> of the rule
  number at index \<open>p\<close>, and the loop reads index \<open>7 - v\<close> for the neighbourhood value
  \<open>v\<close>; so the next state is bit \<open>7 - v\<close> of the rule number.
\<close>

lemma next_cell_reversed_bit:
  assumes "0 \<le> r" "r \<le> 255" "length gen = n" "binary gen" "i < n"
  shows "\<exists>v. neighborhoodIndex gen n i = Num v \<and> 0 \<le> v \<and> v \<le> 7 \<and>
             next_cell (getRuleArray r) gen n i = Num (of_bool (bit r (nat (7 - v))))"
proof -
  have "length (getRuleArray r) = 8" using assms(1,2) by (rule getRuleArray_length)
  from next_cell_rule_entry [OF assms(3-5) this] obtain v where
    v: "neighborhoodIndex gen n i = Num v" "0 \<le> v" "v \<le> 7"
      "next_cell (getRuleArray r) gen n i = getRuleArray r ! nat (7 - v)" by blast
  then have "nat (7 - v) < 8" by simp
  with v assms(1,2) show ?thesis by (simp add: getRuleArray_nth)
qed

lemma next_cell_is_binary:
  assumes "length gen = n" "binary gen" "i < n" "length rl = 8" "binary rl"
  shows "next_cell rl gen n i = Num 0 \<or> next_cell rl gen n i = Num 1"
proof -
  from next_cell_rule_entry [OF assms(1-4)] obtain v where
    v: "0 \<le> v" "v \<le> 7" "next_cell rl gen n i = rl ! nat (7 - v)" by blast
  then have "nat (7 - v) < length rl" using assms(4) by simp
  with assms(5) v(3) show ?thesis by (simp add: binary_nth)
qed

lemma nextGeneration_valid:
  assumes "valid_instance h a n"
  shows "valid_instance (h @ [map (next_cell (rule a) (h ! generation a) n) [0..<n]])
           (a\<lparr>generation := length h\<rparr>) n"
proof -
  from assms have v: "length (h ! generation a) = n" "binary (h ! generation a)"
    "length (rule a) = 8" "binary (rule a)" "0 < n" "width a = rat_of_nat n" "n < 2 ^ 32"
    by (simp_all add: valid_instance_def)
  have "binary (map (next_cell (rule a) (h ! generation a) n) [0..<n])"
    using next_cell_is_binary [OF v(1,2) _ v(3,4)]
    by (simp add: binary_def list_all_length)
  with v show ?thesis by (simp add: valid_instance_def)
qed

lemma index_bounds:
  assumes "i < n"
  shows "0 \<le> left_index n i \<and> left_index n i < int n \<and>
         0 \<le> right_index n i \<and> right_index n i < int n"
proof -
  have "0 < n" using assms by simp
  then show ?thesis by (simp add: left_index_nat right_index_nat)
qed





subsection \<open>Rotation of the ring\<close>

lemma next_cell_rotate:
  assumes "length gen = n" "i < n"
  shows "next_cell rl (rotate k gen) n i = next_cell rl gen n ((i + k) mod n)"
proof -
  have n: "0 < n" using assms(2) by simp
  have b: "(i + n - 1) mod n < length gen" "i < length gen" "(i + 1) mod n < length gen"
    "((i + k) mod n + n - 1) mod n < length gen" "(i + k) mod n < length gen"
    "((i + k) mod n + 1) mod n < length gen"
    using n assms by simp_all
  have l: "(k + (i + n - 1) mod n) mod n = ((i + k) mod n + n - 1) mod n"
  proof -
    have "(k + (i + n - 1) mod n) mod n = (k + (i + n - 1)) mod n"
      by (rule mod_add_right_eq)
    also have "\<dots> = ((i + k) + (n - 1)) mod n" using n by (simp add: algebra_simps)
    also have "\<dots> = ((i + k) mod n + (n - 1)) mod n" by (rule mod_add_left_eq [symmetric])
    also have "\<dots> = ((i + k) mod n + n - 1) mod n" using n by simp
    finally show ?thesis .
  qed
  have m: "(k + i) mod n = (i + k) mod n" by (simp add: add.commute)
  have r: "(k + (i + 1) mod n) mod n = ((i + k) mod n + 1) mod n"
  proof -
    have "(k + (i + 1) mod n) mod n = (k + (i + 1)) mod n" by (rule mod_add_right_eq)
    also have "\<dots> = ((i + k) + 1) mod n" by (simp add: algebra_simps)
    also have "\<dots> = ((i + k) mod n + 1) mod n" by (rule mod_add_left_eq [symmetric])
    finally show ?thesis .
  qed
  have rot: "js_get (rotate k gen) (int j) = gen ! ((k + j) mod n)" if "j < n" for j
    using that assms(1) by (simp add: js_get_nat nth_rotate)
  have g1: "js_get (rotate k gen) (int ((i + n - 1) mod n)) =
            js_get gen (int (((i + k) mod n + n - 1) mod n))"
    using rot [of "(i + n - 1) mod n"] n b(4) unfolding l by (simp add: js_get_nat)
  have g2: "js_get (rotate k gen) (int i) = js_get gen (int ((i + k) mod n))"
    using rot [of i] assms(2) b(5) unfolding m by (simp add: js_get_nat)
  have g3: "js_get (rotate k gen) (int ((i + 1) mod n)) =
            js_get gen (int (((i + k) mod n + 1) mod n))"
    using rot [of "(i + 1) mod n"] n b(6) unfolding r by (simp add: js_get_nat)
  have "neighborhoodIndex (rotate k gen) n i = neighborhoodIndex gen n ((i + k) mod n)"
    unfolding neighborhoodIndex_def Let_def left_index_nat [OF n] right_index_nat [OF n]
    by (simp only: g1 g2 g3)
  then show ?thesis by (simp add: next_cell_def)
qed

lemma map_next_cell_rotate:
  assumes "length gen = n"
  shows "map (next_cell rl (rotate k gen) n) [0..<n] = rotate k (map (next_cell rl gen n) [0..<n])"
proof (rule nth_equalityI)
  show "length (map (next_cell rl (rotate k gen) n) [0..<n]) =
        length (rotate k (map (next_cell rl gen n) [0..<n]))" by simp
next
  fix i assume "i < length (map (next_cell rl (rotate k gen) n) [0..<n])"
  then have i: "i < n" by simp
  then have "(k + i) mod n < n" by simp
  then show "map (next_cell rl (rotate k gen) n) [0..<n] ! i =
        rotate k (map (next_cell rl gen n) [0..<n]) ! i"
    using i by (simp add: nth_rotate next_cell_rotate [OF assms i] add.commute)
qed

lemma next_contents_result:
  assumes "generation a < length h" "width a = rat_of_nat n" "n < 2 ^ 32"
  shows "next_contents h a = Inr (map (next_cell (rule a) (h ! generation a) n) [0..<n])"
  by (simp add: next_contents_def nextGeneration_result [OF assms])

subsection \<open>The copy returned by getCurrentGeneration\<close>

text \<open>
  \<open>getCurrentGeneration\<close> allocates a new array: the reference it returns is not the one
  the instance holds, the instance and every earlier array are as before, and a write
  through the returned reference leaves the instance's generation as it was.
\<close>

lemma getCurrentGeneration_detached:
  assumes "generation a < length h"
  shows "getCurrentGeneration h a = (h @ [h ! generation a], length h) \<and>
         length h \<noteq> generation a \<and>
         heap_set (h @ [h ! generation a]) (length h) i v ! generation a = h ! generation a"
  using assms by (simp add: getCurrentGeneration_def alloc_def heap_set_def nth_append)

section \<open>The claims\<close>

subsection \<open>Rule 90 on a single seed\<close>

text \<open>
  Claim C2. For an automaton of rule number 90 and width 7 whose current generation is
  \<open>[0,0,0,1,0,0,0]\<close>, a single call of \<open>nextGeneration\<close> produces exactly the generation
  \<open>[0,0,1,0,1,0,0]\<close>: it is the array returned, and the instance's new current generation.
\<close>

theorem rule90_width7_step:
  assumes "rule a = getRuleArray 90" "width a = 7" "generation a < length h"
    and "h ! generation a = [Num 0, Num 0, Num 0, Num 1, Num 0, Num 0, Num 0]"
  shows "nextGeneration h a =
           Inr (h @ [[Num 0, Num 0, Num 1, Num 0, Num 1, Num 0, Num 0]],
                a\<lparr>generation := length h\<rparr>, length h)"
  using assms by (rule rule90_seed7_step)

text \<open>The instance that \<open>new ElementaryCellularAutomaton(90, 7)\<close> builds is such an
  automaton, and its first step gives that generation.\<close>

theorem rule90_width7_step_witness:
  "constructor [] 90 7 None =
     Inr ([[Num 0, Num 0, Num 0, Num 1, Num 0, Num 0, Num 0]],
          \<lparr>rule = getRuleArray 90, width = 7, generation = 0\<rparr>) \<and>
   nextGeneration [[Num 0, Num 0, Num 0, Num 1, Num 0, Num 0, Num 0]]
       \<lparr>rule = getRuleArray 90, width = 7, generation = 0\<rparr> =
     Inr ([[Num 0, Num 0, Num 0, Num 1, Num 0, Num 0, Num 0],
           [Num 0, Num 0, Num 1, Num 0, Num 1, Num 0, Num 0]],
          \<lparr>rule = getRuleArray 90, width = 7, generation = 1\<rparr>, 1)"
  using constructor_90_7
    rule90_width7_step [of "\<lparr>rule = getRuleArray 90, width = 7, generation = 0\<rparr>"
        "[[Num 0, Num 0, Num 0, Num 1, Num 0, Num 0, Num 0]]"]
  by simp

subsection \<open>Construction\<close>

text \<open>
  Claim C4. Construction fails with InvalidRuleNumber exactly when the rule number is
  outside 0..255, and with InvalidWidth exactly when the width is not a positive integer,
  a non-integer width such as 2.5 included; on failure no instance is produced.

  The guard on the width is \<open>width <= 0\<close>, so the width 2.5 passes it, although the message
  of the error it guards reads "Width must be a positive integer.". With a supplied initial
  generation of three cells the constructor returns an instance of width 2.5 holding two
  cells, whose \<open>nextGeneration\<close> then throws a RangeError; with the initial generation
  omitted the constructor itself throws that RangeError, not InvalidWidth.
\<close>

theorem constructor_noninteger_width:
  "constructor [] 90 (5 / 2) (Some [Num 1, Num 0, Num 1]) =
     Inr ([[Num 1, Num 0]], \<lparr>rule = getRuleArray 90, width = 5 / 2, generation = 0\<rparr>) \<and>
   nextGeneration [[Num 1, Num 0]] \<lparr>rule = getRuleArray 90, width = 5 / 2, generation = 0\<rparr> =
     Inl RangeError \<and>
   constructor [] 90 (5 / 2) None = Inl RangeError"
  by (simp add: constructor_def adjust_def createInitialGeneration_def Array_fill_def alloc_def
      nextGeneration_def floor_5_halves)

text \<open>
  Claim C6. When the supplied initial generation differs in length from the width, the
  stored generation is adjusted: a shorter one is centred in zeros, with
  \<open>floor((width - length)/2)\<close> zeros before it and the remaining zeros after it; a longer
  one is cut to its first \<open>width\<close> values; one of the right length is copied as it is.

  As stated, for every width, this fails: the zeros are made by \<open>Array(floor(diff/2))\<close>,
  which throws a RangeError from \<open>2^32\<close> on. For the width 8589934594 and the initial
  generation \<open>[1,1]\<close>, \<open>floor(diff/2)\<close> is 4294967296 and no instance is built.
\<close>

theorem constructor_adjust_width_too_large:
  "constructor [] 90 8589934594 (Some [Num 1, Num 1]) = Inl RangeError"
  by (simp add: constructor_def adjust_def Array_fill_def Let_def)

text \<open>
  Claim C6, amended: for every positive integer width \<open>n\<close> below \<open>2^32\<close>, the lengths
  \<open>Array\<close> accepts, the constructor stores the supplied generation adjusted as the claim
  says, \<open>spec_adjusted n xs\<close>, in a fresh array.
\<close>

theorem constructor_adjusts_initialGeneration:
  assumes "0 \<le> r" "r \<le> 255" "0 < n" "n < 2 ^ 32"
  shows "constructor h r (rat_of_nat n) (Some xs) =
           Inr (h @ [spec_adjusted n xs],
                \<lparr>rule = getRuleArray r, width = rat_of_nat n, generation = length h\<rparr>)"
  using assms by (intro constructor_Some) simp_all

text \<open>In particular \<open>new ElementaryCellularAutomaton(90, 7, [1,1])\<close> starts from
  \<open>[0,0,1,1,0,0,0]\<close>.\<close>

theorem constructor_adjusts_initialGeneration_witness:
  "(0::int) \<le> 90 \<and> (90::int) \<le> 255 \<and> (0::nat) < 7 \<and> (7::nat) < 2 ^ 32 \<and>
   constructor [] 90 7 (Some [Num 1, Num 1]) =
     Inr ([[Num 0, Num 0, Num 1, Num 1, Num 0, Num 0, Num 0]],
          \<lparr>rule = getRuleArray 90, width = 7, generation = 0\<rparr>)"
  using constructor_adjusts_initialGeneration [of 90 7 "[]" "[Num 1, Num 1]"]
  by (simp add: spec_adjusted_example)

text \<open>
  Claim C8. For every valid width \<open>n\<close>, construction without an initial generation stores
  a sequence of length \<open>n\<close> that is zero everywhere except for a single 1 at index
  \<open>floor(n/2)\<close>.

  As stated, for every positive integer width, this fails: \<open>_createInitialGeneration\<close>
  calls \<open>Array(width)\<close>, which throws a RangeError at the width 4294967296, and no
  instance is built.
\<close>

theorem constructor_default_width_too_large:
  "constructor [] 90 4294967296 None = Inl RangeError"
  by (simp add: constructor_def createInitialGeneration_def Array_fill_def)

text \<open>
  Claim C8, amended: for every positive integer width \<open>n\<close> below \<open>2^32\<close>, the lengths
  \<open>Array\<close> accepts, construction without an initial generation stores a sequence of
  length \<open>n\<close> that is zero everywhere except for a single 1 at index \<open>floor(n/2)\<close>.
\<close>

theorem constructor_default_generation:
  assumes "0 \<le> r" "r \<le> 255" "0 < n" "n < 2 ^ 32"
  shows "constructor h r (rat_of_nat n) None =
           Inr (h @ [(replicate n (Num 0))[n div 2 := Num 1]],
                \<lparr>rule = getRuleArray r, width = rat_of_nat n, generation = length h\<rparr>) \<and>
         length ((replicate n (Num 0))[n div 2 := Num 1]) = n \<and> n div 2 < n \<and>
         (\<forall>i<n. (replicate n (Num 0))[n div 2 := Num 1] ! i =
                  (if i = n div 2 then Num 1 else Num 0))"
  using assms by (simp add: constructor_None [where n = n] nth_list_update)

theorem constructor_default_generation_witness:
  "(0::int) \<le> 30 \<and> (30::int) \<le> 255 \<and> (0::nat) < 5 \<and> (5::nat) < 2 ^ 32 \<and>
   constructor [] 30 5 None =
     Inr ([[Num 0, Num 0, Num 1, Num 0, Num 0]],
          \<lparr>rule = getRuleArray 30, width = 5, generation = 0\<rparr>)"
  using constructor_default_generation [of 30 5 "[]"]
  by (simp add: seed_5)

subsection \<open>One step\<close>

text \<open>
  Claim C5. For every instance (its width \<open>n\<close> is the length of an array, hence below
  \<open>2^32\<close>) and every cell index \<open>i\<close> below \<open>n\<close>, \<open>nextGeneration\<close> takes
  \<open>left = generation[(i - 1 + n) mod n]\<close>, \<open>middle = generation[i]\<close> and
  \<open>right = generation[(i + 1) mod n]\<close>, so that cell 0 has cell \<open>n - 1\<close> on its left and
  cell \<open>n - 1\<close> has cell 0 on its right. All \<open>n\<close> new cells are computed from the
  generation as it was before the step: the new store is the old one, unchanged, with one
  new array after it, and the instance then refers to that new array.
\<close>

theorem nextGeneration_neighborhoods:
  assumes "generation a < length h" "width a = rat_of_nat n" "n < 2 ^ 32"
  shows "nextGeneration h a =
           Inr (h @ [map (next_cell (rule a) (h ! generation a) n) [0..<n]],
                a\<lparr>generation := length h\<rparr>, length h) \<and>
         (\<forall>i<n. next_cell (rule a) (h ! generation a) n i =
              js_index (rule a) (js_minus 7 (parseInt
                (template (js_get (h ! generation a) ((int i - 1 + int n) mod int n)) @
                 template (js_get (h ! generation a) (int i)) @
                 template (js_get (h ! generation a) ((int i + 1) mod int n))) 2))) \<and>
         (0 < n \<longrightarrow> left_index n 0 = int n - 1 \<and> right_index n (n - 1) = 0)"
proof (intro conjI allI impI)
  show "nextGeneration h a =
           Inr (h @ [map (next_cell (rule a) (h ! generation a) n) [0..<n]],
                a\<lparr>generation := length h\<rparr>, length h)"
    using assms by (rule nextGeneration_result)
next
  fix i assume "i < n"
  then show "next_cell (rule a) (h ! generation a) n i =
              js_index (rule a) (js_minus 7 (parseInt
                (template (js_get (h ! generation a) ((int i - 1 + int n) mod int n)) @
                 template (js_get (h ! generation a) (int i)) @
                 template (js_get (h ! generation a) ((int i + 1) mod int n))) 2))"
    by (rule next_cell_unfold)
next
  assume "0 < n"
  then show "left_index n 0 = int n - 1" by (rule left_index_first)
next
  assume "0 < n"
  then show "right_index n (n - 1) = 0" by (rule right_index_last)
qed

theorem nextGeneration_neighborhoods_witness:
  "nextGeneration [[Num 0, Num 0, Num 1, Num 0, Num 0]]
       \<lparr>rule = getRuleArray 90, width = 5, generation = 0\<rparr> =
     Inr ([[Num 0, Num 0, Num 1, Num 0, Num 0], [Num 0, Num 1, Num 0, Num 1, Num 0]],
          \<lparr>rule = getRuleArray 90, width = 5, generation = 1\<rparr>, 1) \<and>
   left_index 5 0 = 4 \<and> right_index 5 4 = 0"
  using nextGeneration_neighborhoods [of "\<lparr>rule = getRuleArray 90, width = 5, generation = 0\<rparr>"
        "[[Num 0, Num 0, Num 1, Num 0, Num 0]]" 5]
  by (simp add: getRuleArray_90 upt_5 next_cell_binary [where n = 5] binary_def)

text \<open>
  Claim C9. On a valid instance (width a positive integer \<open>n\<close>, a generation of \<open>n\<close>
  binary cells, a rule table of eight binary entries) \<open>nextGeneration\<close> and
  \<open>getCurrentGeneration\<close> are total: no error is thrown, the result is again a sequence
  of \<open>n\<close> binary cells, and every array access is in bounds. The accesses are those of the
  loop body: the generation at \<open>left_index\<close>, at \<open>i\<close> and at \<open>right_index\<close>, the rule
  table at \<open>7 - neighborhoodIndex\<close>, and the write of cell \<open>i\<close> of the new array, which
  has \<open>n\<close> cells.
\<close>

theorem valid_instance_total:
  assumes "valid_instance h a n"
  shows "nextGeneration h a =
           Inr (h @ [map (next_cell (rule a) (h ! generation a) n) [0..<n]],
                a\<lparr>generation := length h\<rparr>, length h) \<and>
         valid_instance (h @ [map (next_cell (rule a) (h ! generation a) n) [0..<n]])
           (a\<lparr>generation := length h\<rparr>) n \<and>
         getCurrentGeneration h a = (h @ [h ! generation a], length h) \<and>
         generation a < length h \<and> length (h ! generation a) = n \<and>
         binary (h ! generation a) \<and>
         Array_fill (width a) (Num 0) = Inr (replicate n (Num 0)) \<and>
         (\<forall>i<n. 0 \<le> left_index n i \<and> left_index n i < int (length (h ! generation a)) \<and>
                 0 \<le> right_index n i \<and> right_index n i < int (length (h ! generation a)) \<and>
                 (\<exists>v. neighborhoodIndex (h ! generation a) n i = Num v \<and>
                      0 \<le> 7 - v \<and> 7 - v < int (length (rule a))))"
proof -
  from assms have v: "length (h ! generation a) = n" "binary (h ! generation a)"
    "length (rule a) = 8" "binary (rule a)" "0 < n" "width a = rat_of_nat n"
    "generation a < length h" "n < 2 ^ 32"
    by (simp_all add: valid_instance_def)
  have "\<exists>v. neighborhoodIndex (h ! generation a) n i = Num v \<and>
            0 \<le> 7 - v \<and> 7 - v < int (length (rule a))" if "i < n" for i
    using neighborhoodIndex_range [OF v(1,2) that] v(3) by auto
  then show ?thesis
    using v nextGeneration_result [OF v(7,6,8)] nextGeneration_valid [OF assms] index_bounds [of _ n]
    by (simp add: getCurrentGeneration_def alloc_def Array_fill_nat)
qed

theorem valid_instance_total_witness:
  "valid_instance [[Num 0, Num 0, Num 1, Num 0, Num 0]]
       \<lparr>rule = getRuleArray 90, width = 5, generation = 0\<rparr> 5 \<and>
   nextGeneration [[Num 0, Num 0, Num 1, Num 0, Num 0]]
       \<lparr>rule = getRuleArray 90, width = 5, generation = 0\<rparr> =
     Inr ([[Num 0, Num 0, Num 1, Num 0, Num 0], [Num 0, Num 1, Num 0, Num 1, Num 0]],
          \<lparr>rule = getRuleArray 90, width = 5, generation = 1\<rparr>, 1) \<and>
   valid_instance [[Num 0, Num 0, Num 1, Num 0, Num 0], [Num 0, Num 1, Num 0, Num 1, Num 0]]
       \<lparr>rule = getRuleArray 90, width = 5, generation = 1\<rparr> 5 \<and>
   getCurrentGeneration [[Num 0, Num 0, Num 1, Num 0, Num 0]]
       \<lparr>rule = getRuleArray 90, width = 5, generation = 0\<rparr> =
     ([[Num 0, Num 0, Num 1, Num 0, Num 0], [Num 0, Num 0, Num 1, Num 0, Num 0]], 1)"
proof -
  have v: "valid_instance [[Num 0, Num 0, Num 1, Num 0, Num 0]]
       \<lparr>rule = getRuleArray 90, width = 5, generation = 0\<rparr> 5"
    by (simp add: valid_instance_def binary_def getRuleArray_90)
  from valid_instance_total [OF v] v show ?thesis
    by (simp add: getRuleArray_90 upt_5 next_cell_binary [where n = 5] binary_def)
qed

text \<open>
  Claim C10. The step commutes with rotation of the ring: for every rotation amount \<open>k\<close>,
  \<open>nextGeneration\<close> on the generation rotated by \<open>k\<close> returns the rotation by \<open>k\<close> of
  what it returns on the generation itself. (\<open>rotate k\<close> rotates to the left; a rotation
  to the right by \<open>k\<close> is \<open>rotate (n - k mod n)\<close>, so every cyclic rotation is covered.)
  It holds for any rule table and any cell contents, the binary ones of the claim included;
  the generation is an array, so its length \<open>n\<close> is below \<open>2^32\<close>.
\<close>

theorem nextGeneration_rotate:
  assumes "generation a < length h" "width a = rat_of_nat n" "length (h ! generation a) = n"
    and "n < 2 ^ 32"
  shows "\<exists>gen'. next_contents h a = Inr gen' \<and>
           next_contents (h[generation a := rotate k (h ! generation a)]) a = Inr (rotate k gen')"
proof -
  let ?h = "h[generation a := rotate k (h ! generation a)]"
  have "generation a < length ?h" using assms(1) by simp
  then have "next_contents ?h a = Inr (map (next_cell (rule a) (?h ! generation a) n) [0..<n])"
    using assms(2,4) by (rule next_contents_result)
  also have "?h ! generation a = rotate k (h ! generation a)" using assms(1) by simp
  finally show ?thesis
    by (simp add: next_contents_result [OF assms(1,2,4)] map_next_cell_rotate [OF assms(3)])
qed

theorem nextGeneration_rotate_witness:
  "generation \<lparr>rule = getRuleArray 90, width = 5, generation = 0\<rparr> <
     length [[Num 0, Num 0, Num 1, Num 0, Num 0]] \<and>
   width \<lparr>rule = getRuleArray 90, width = 5, generation = 0\<rparr> = rat_of_nat 5 \<and>
   length ([[Num 0, Num 0, Num 1, Num 0, Num 0]] ! 0) = 5 \<and> (5::nat) < 2 ^ 32 \<and>
   next_contents [[Num 0, Num 0, Num 1, Num 0, Num 0]]
       \<lparr>rule = getRuleArray 90, width = 5, generation = 0\<rparr> =
     Inr [Num 0, Num 1, Num 0, Num 1, Num 0] \<and>
   next_contents [[Num 0, Num 1, Num 0, Num 0, Num 0]]
       \<lparr>rule = getRuleArray 90, width = 5, generation = 0\<rparr> =
     Inr [Num 1, Num 0, Num 1, Num 0, Num 0]"
proof -
  let ?a = "\<lparr>rule = getRuleArray 90, width = 5, generation = 0\<rparr>"
  let ?h = "[[Num 0, Num 0, Num 1, Num 0, Num 0]]"
  have e: "next_contents ?h ?a = Inr [Num 0, Num 1, Num 0, Num 1, Num 0]"
    by (subst next_contents_result [where n = 5])
       (simp_all add: getRuleArray_90 upt_5 next_cell_binary [where n = 5] binary_def)
  from nextGeneration_rotate [of ?a ?h 5 1] e show ?thesis
    by simp
qed

subsection \<open>The rule table and the Wolfram numbering\<close>

text \<open>
  Claim C1. For every rule number in 0..255 the next state of a cell whose neighbourhood
  has the value \<open>v = left*4 + middle*2 + right\<close> is bit \<open>v\<close> of the rule number (bit 0 the
  least significant).

  The source builds the rule array with a final \<open>reverse()\<close>, so that index \<open>p\<close> holds bit
  \<open>p\<close>, and then reads index \<open>7 - v\<close>: the next state is bit \<open>7 - v\<close> (lemma
  \<open>next_cell_reversed_bit\<close>). For rule 30 on the seed of width 5, cell 1 has the
  neighbourhood 001, of value 1; bit 1 of 30 is set, and the source's own table for rule 30
  gives 1 for 001; the step gives 0, and the whole row is \<open>[0,0,0,1,0]\<close> where rule 30
  gives \<open>[0,1,1,1,0]\<close>.
\<close>

theorem rule30_width5_step:
  "constructor [] 30 5 None =
     Inr ([[Num 0, Num 0, Num 1, Num 0, Num 0]],
          \<lparr>rule = getRuleArray 30, width = 5, generation = 0\<rparr>) \<and>
   nextGeneration [[Num 0, Num 0, Num 1, Num 0, Num 0]]
       \<lparr>rule = getRuleArray 30, width = 5, generation = 0\<rparr> =
     Inr ([[Num 0, Num 0, Num 1, Num 0, Num 0], [Num 0, Num 0, Num 0, Num 1, Num 0]],
          \<lparr>rule = getRuleArray 30, width = 5, generation = 1\<rparr>, 1) \<and>
   neighborhoodIndex [Num 0, Num 0, Num 1, Num 0, Num 0] 5 1 = Num 1 \<and>
   bit (30::int) 1 \<and>
   next_cell (getRuleArray 30) [Num 0, Num 0, Num 1, Num 0, Num 0] 5 1 = Num 0"
proof -
  have c: "constructor [] 30 5 None =
     Inr ([[Num 0, Num 0, Num 1, Num 0, Num 0]],
          \<lparr>rule = getRuleArray 30, width = 5, generation = 0\<rparr>)"
    by (subst constructor_None [where n = 5]) (simp_all add: seed_5)
  have s: "nextGeneration [[Num 0, Num 0, Num 1, Num 0, Num 0]]
       \<lparr>rule = getRuleArray 30, width = 5, generation = 0\<rparr> =
     Inr ([[Num 0, Num 0, Num 1, Num 0, Num 0], [Num 0, Num 0, Num 0, Num 1, Num 0]],
          \<lparr>rule = getRuleArray 30, width = 5, generation = 1\<rparr>, 1)"
    by (subst nextGeneration_result [where n = 5])
       (simp_all add: getRuleArray_30 upt_5 next_cell_binary [where n = 5] binary_def)
  have v: "neighborhoodIndex [Num 0, Num 0, Num 1, Num 0, Num 0] 5 1 = Num 1"
    by (subst neighborhoodIndex_binary) (simp_all add: binary_def)
  have b: "bit (30::int) 1" by (simp add: bit_iff_odd)
  have n: "next_cell (getRuleArray 30) [Num 0, Num 0, Num 1, Num 0, Num 0] 5 1 = Num 0"
    by (subst next_cell_binary) (simp_all add: getRuleArray_30 binary_def)
  from c s v b n show ?thesis by (intro conjI)
qed

subsection \<open>References handed to the caller\<close>

text \<open>
  Claim C3. The sequences returned by \<open>nextGeneration\<close> and \<open>getCurrentGeneration\<close> are
  detached from the engine: mutating a returned value never changes the engine's current
  generation, and \<open>getCurrentGeneration\<close> has no side effect on the engine.

  \<open>getCurrentGeneration\<close> returns a copy (lemma \<open>getCurrentGeneration_detached\<close>), but
  \<open>nextGeneration\<close> returns \<open>this.generation\<close> itself. After the first step of the rule 90
  instance of width 7 the returned reference is the instance's own, and the caller's write
  \<open>r[0] = 1\<close> turns the engine's current generation from \<open>[0,0,1,0,1,0,0]\<close> into
  \<open>[1,0,1,0,1,0,0]\<close>.
\<close>

theorem nextGeneration_returns_alias:
  "nextGeneration [[Num 0, Num 0, Num 0, Num 1, Num 0, Num 0, Num 0]]
       \<lparr>rule = getRuleArray 90, width = 7, generation = 0\<rparr> =
     Inr ([[Num 0, Num 0, Num 0, Num 1, Num 0, Num 0, Num 0],
           [Num 0, Num 0, Num 1, Num 0, Num 1, Num 0, Num 0]],
          \<lparr>rule = getRuleArray 90, width = 7, generation = 1\<rparr>, 1) \<and>
   heap_set [[Num 0, Num 0, Num 0, Num 1, Num 0, Num 0, Num 0],
             [Num 0, Num 0, Num 1, Num 0, Num 1, Num 0, Num 0]] 1 0 (Num 1) !
       generation \<lparr>rule = getRuleArray 90, width = 7, generation = 1\<rparr> =
     [Num 1, Num 0, Num 1, Num 0, Num 1, Num 0, Num 0]"
  using rule90_seed7_step [of "\<lparr>rule = getRuleArray 90, width = 7, generation = 0\<rparr>"
        "[[Num 0, Num 0, Num 0, Num 1, Num 0, Num 0, Num 0]]"]
  by (simp add: heap_set_def js_set_def)

subsection \<open>The instance invariant\<close>



end
